theory Spec2Isabelle
  imports Complex_Main "HOL-Library.Word"
begin

section \<open>Python values used by Generate\_daily\_video.py\<close>

text \<open>
  Python ints are \<open>int\<close>.  A Python float is the real number it stands for; infinities
  and NaN are left out.  In the speed-line generator, where rounding decides which pixel is
  painted, the rounded operations are parameters of the model (see \<open>arith\<close> below);
  elsewhere the operations are the exact ones.  An exception is a value
  carrying its class name and its message \<open>str(e)\<close>: \<open>Exn\<close> stands for an instance
  of a class deriving from \<open>Exception\<close> (the only ones an \<open>except Exception\<close>
  clause catches), \<open>BaseExn\<close> for the remaining subclasses of \<open>BaseException\<close>
  (KeyboardInterrupt, SystemExit, GeneratorExit).
\<close>

datatype exn = Exn string string | BaseExn string string

text \<open>\<open>int(r)\<close> on a float truncates towards zero.\<close>

definition py_int :: "real \<Rightarrow> int" where
  "py_int r = (if 0 \<le> r then \<lfloor>r\<rfloor> else \<lceil>r\<rceil>)"

text \<open>\<open>a // b\<close> on ints: floor division, ZeroDivisionError on a zero divisor.\<close>

definition py_floordiv :: "int \<Rightarrow> int \<Rightarrow> exn + int" where
  "py_floordiv a b =
     (if b = 0 then Inl (Exn ''ZeroDivisionError'' ''integer division or modulo by zero'') else Inr (a div b))"

text \<open>
  \<open>range(start, stop, step)\<close>: ValueError on a zero step, the ascending progression
  below \<open>stop\<close> for a positive step, the descending one above \<open>stop\<close> for a negative
  step.
\<close>

definition py_range :: "int \<Rightarrow> int \<Rightarrow> int \<Rightarrow> exn + int list" where
  "py_range start stop step =
     (if step = 0 then Inl (Exn ''ValueError'' ''range() arg 3 must not be zero'')
      else if 0 < step then
        Inr (map (\<lambda>k. start + int k * step) [0..<nat ((stop - start + step - 1) div step)])
      else
        Inr (map (\<lambda>k. start + int k * step) [0..<nat ((start - stop - step - 1) div (- step))]))"

section \<open>Module constants\<close>

definition W :: int where "W = 720"
definition H :: int where "H = 1280"
definition FPS :: nat where "FPS = 24"
definition DUR :: real where "DUR = 12"
definition OUT_DIR :: string where "OUT_DIR = ''out''"

text \<open>\<open>os.path.join(OUT_DIR, "video.mp4")\<close> with the POSIX separator.\<close>

definition OUT_PATH :: string where "OUT_PATH = OUT_DIR @ ''/'' @ ''video.mp4''"

section \<open>Speed lines\<close>

text \<open>
  A frame is the array \<open>np.zeros((H, W, 3), dtype=np.uint8)\<close>: a list of \<open>H\<close> rows, each a
  list of \<open>W\<close> pixels, each a list of three bytes.
\<close>

type_synonym pixel = "8 word list"
type_synonym frame = "pixel list list"

definition np_zeros :: "nat \<Rightarrow> nat \<Rightarrow> nat \<Rightarrow> frame" where
  "np_zeros h w ch = replicate h (replicate w (replicate ch 0))"

text \<open>
  \<open>row[x:x+k] = 255\<close> for \<open>0 \<le> x\<close>: the slice is clipped to the row and 255 is broadcast
  over the three channels of every pixel in it.
\<close>

definition set_slice :: "int \<Rightarrow> int \<Rightarrow> pixel list \<Rightarrow> pixel list" where
  "set_slice x k row =
     map (\<lambda>c. if x \<le> int c \<and> int c < x + k then map (\<lambda>_. 255) (row ! c) else row ! c)
       [0..<length row]"

text \<open>
  The floating-point operations the generator uses: the product and the sum of two doubles,
  each rounded to a double, and \<open>math.cos\<close> and \<open>math.radians\<close>.  What they round to is
  left open, so that what is proved holds of every rounding; \<open>exact\<close> is the arithmetic
  that does not round.  An int operand is converted to the double of the same value.
\<close>

record arith =
  f_mul :: "real \<Rightarrow> real \<Rightarrow> real"
  f_add :: "real \<Rightarrow> real \<Rightarrow> real"
  f_cos :: "real \<Rightarrow> real"
  f_radians :: "real \<Rightarrow> real"

definition radians :: "real \<Rightarrow> real" where
  "radians d = d * pi / 180"

definition exact :: arith where
  "exact = \<lparr>f_mul = (\<lambda>a b. a * b), f_add = (\<lambda>a b. a + b), f_cos = cos, f_radians = radians\<rparr>"

text \<open>
  The body of the inner loop \<open>for x in range(0, W, period)\<close> on row \<open>y\<close>; the argument of
  \<open>int\<close> is \<open>(x + dx * y) + shift\<close>, each operation rounded.
\<close>

fun cols_loop ::
  "arith \<Rightarrow> real \<Rightarrow> int \<Rightarrow> int \<Rightarrow> int \<Rightarrow> nat \<Rightarrow> int list \<Rightarrow> pixel list \<Rightarrow> pixel list" where
  "cols_loop fl dx period thickness shift y [] row = row"
| "cols_loop fl dx period thickness shift y (x # xs) row =
     (let xi = py_int (f_add fl (f_add fl (real_of_int x) (f_mul fl dx (real y)))
                         (real_of_int shift)) mod period
      in cols_loop fl dx period thickness shift y xs
           (if xi < thickness then set_slice x thickness row else row))"

text \<open>
  The outer loop \<open>for y in range(H)\<close>.  The inner \<open>range\<close> is evaluated anew in each
  iteration, and raises there when the period is zero.
\<close>

fun rows_loop ::
  "arith \<Rightarrow> real \<Rightarrow> int \<Rightarrow> int \<Rightarrow> int \<Rightarrow> nat list \<Rightarrow> frame \<Rightarrow> exn + frame" where
  "rows_loop fl dx period thickness shift [] img = Inr img"
| "rows_loop fl dx period thickness shift (y # ys) img =
     (case py_range 0 W period of
        Inl e \<Rightarrow> Inl e
      | Inr xs \<Rightarrow>
          rows_loop fl dx period thickness shift ys
            (img[y := cols_loop fl dx period thickness shift y xs (img ! y)]))"

definition make_frame :: "arith \<Rightarrow> real \<Rightarrow> int \<Rightarrow> int \<Rightarrow> real \<Rightarrow> real \<Rightarrow> exn + frame" where
  "make_frame fl dx period thickness speed t =
     (let shift = py_int (f_mul fl speed t);
          img = np_zeros (nat H) (nat W) 3
      in rows_loop fl dx period thickness shift [0..<nat H] img)"

text \<open>
  The clip returned by \<open>speedlines_clip\<close>: the frame function handed to \<open>VideoClip\<close>,
  with the duration, the frame rate and the opacity set on it.  The source also computes
  \<open>dy = sin(angle)\<close> and never uses it.  The frame function is evaluated when a frame is
  asked for; whether the constructor already asks for one is the library's matter.
\<close>

record video_clip =
  get_frame :: "real \<Rightarrow> exn + frame"
  duration :: real
  fps :: nat
  opacity :: real

definition speedlines_clip ::
  "arith \<Rightarrow> real \<Rightarrow> int \<Rightarrow> real \<Rightarrow> real \<Rightarrow> real \<Rightarrow> exn + video_clip" where
  "speedlines_clip fl dur density angle_deg speed opac =
     (let angle = f_radians fl angle_deg;
          dx = f_cos fl angle
      in case py_floordiv W density of
           Inl e \<Rightarrow> Inl e
         | Inr period \<Rightarrow>
             (let thickness = max 1 (period div 3)
              in Inr \<lparr>get_frame = make_frame fl dx period thickness speed,
                      duration = dur, fps = FPS, opacity = opac\<rparr>))"

text \<open>The test of the inner loop: stride \<open>x\<close> of row \<open>y\<close> gets a streak.\<close>

definition lit :: "arith \<Rightarrow> real \<Rightarrow> int \<Rightarrow> int \<Rightarrow> int \<Rightarrow> nat \<Rightarrow> int \<Rightarrow> bool" where
  "lit fl dx period thickness shift y x \<longleftrightarrow>
     py_int (f_add fl (f_add fl (real_of_int x) (f_mul fl dx (real y)))
               (real_of_int shift)) mod period < thickness"

subsection \<open>The stripe pattern as the specification words it\<close>







text \<open>
  The periodic pattern, pixel by pixel: column \<open>c\<close> of row \<open>y\<close> is white when it lies in
  the first \<open>thickness\<close> columns of its stride and the stride is switched on in that row,
  and black otherwise.
\<close>

definition stripe_frame :: "(nat \<Rightarrow> int \<Rightarrow> bool) \<Rightarrow> int \<Rightarrow> int \<Rightarrow> frame" where
  "stripe_frame on period thickness =
     map (\<lambda>y. map (\<lambda>c. if int c mod period < thickness \<and> on y (int c - int c mod period)
                         then [255, 255, 255] else [0, 0, 0]) [0..<nat W]) [0..<nat H]"

text \<open>An array of shape \<open>(h, w, 3)\<close> whose entries are all 0 or 255.\<close>

definition rgb_buffer :: "nat \<Rightarrow> nat \<Rightarrow> frame \<Rightarrow> bool" where
  "rgb_buffer h w img \<longleftrightarrow>
     length img = h \<and>
     list_all (\<lambda>row. length row = w \<and>
       list_all (\<lambda>px. length px = 3 \<and> list_all (\<lambda>b. b = 0 \<or> b = 255) px) row) img"

section \<open>Shake\<close>

text \<open>
  A generator is the stream of its raw draws.  \<open>random.Random(seed)\<close> is determined by
  its seed; which stream a seed gives is a parameter \<open>prng\<close> of the model.
  \<open>randint(a, b)\<close> raises ValueError on an empty range and otherwise returns
  \<open>a + randbelow(b - a + 1)\<close>, advancing the generator.
\<close>

type_synonym gen = "nat \<Rightarrow> nat"

definition randbelow :: "gen \<Rightarrow> nat \<Rightarrow> nat \<times> gen" where
  "randbelow g n = (g 0 mod n, \<lambda>k. g (Suc k))"

definition randint :: "gen \<Rightarrow> int \<Rightarrow> int \<Rightarrow> exn + (int \<times> gen)" where
  "randint g a b =
     (if b < a then Inl (Exn ''ValueError'' ''empty range for randrange()'')
      else (let (r, g') = randbelow g (nat (b - a + 1)) in Inr (a + int r, g')))"

definition shake_pos :: "(int \<Rightarrow> gen) \<Rightarrow> int \<Rightarrow> real \<Rightarrow> exn + (int \<times> int)" where
  "shake_pos prng intensity t =
     (let rng = prng (py_int (t * 1000) + 42)
      in case randint rng (- intensity) intensity of
           Inl e \<Rightarrow> Inl e
         | Inr (a, rng') \<Rightarrow>
             (case randint rng' (- intensity) intensity of
                Inl e \<Rightarrow> Inl e
              | Inr (b, rng'') \<Rightarrow> Inr (a, b)))"

section \<open>Audio helpers\<close>

text \<open>
  An \<open>AudioClip\<close> as the source constructs it: the sample function, the duration and
  the sampling rate.
\<close>

record audio_clip =
  samples :: "real \<Rightarrow> real"
  adur :: real
  afps :: nat

definition tone :: "real \<Rightarrow> real \<Rightarrow> real \<Rightarrow> audio_clip" where
  "tone freq dur vol =
     \<lparr>samples = (\<lambda>t. vol * sin (2 * pi * freq * t)), adur = dur, afps = 44100\<rparr>"

definition whoosh :: "real \<Rightarrow> audio_clip" where
  "whoosh dur =
     \<lparr>samples = (\<lambda>t. 0.25 * sin (2 * pi * (80 + 220 * t\<^sup>2) * t)), adur = dur, afps = 44100\<rparr>"

definition thump :: "real \<Rightarrow> audio_clip" where
  "thump dur =
     \<lparr>samples = (\<lambda>t. 0.35 * sin (2 * pi * (60 * (1 - t)) * t) * exp (- 6 * t)),
      adur = dur, afps = 44100\<rparr>"

section \<open>The outside world\<close>

text \<open>
  Everything the script reads from or does to its surroundings.  The places where it
  calls out and the call may raise: \<open>os.makedirs\<close>; the construction of the clips with
  the compositing library (lines 73 to 130, the audio track of lines 113 to 119 among them);
  \<open>write_videofile\<close>; and, in the upload step, the three imports, \<open>Credentials\<close>,
  \<open>build\<close>, \<open>MediaFileUpload\<close> and \<open>insert(...).execute()\<close>.
\<close>

datatype call =
  Makedirs | Compose | Encode | ImportGoogle | Credentials | Build | MediaFileUpload
  | InsertExecute

record world =
  env :: "string \<Rightarrow> string option"
  draws :: gen
  today :: string
  raises :: "call \<Rightarrow> exn option"
  response_id :: "string option"
  float_ops :: arith

text \<open>
  \<open>env\<close> is the process environment (\<open>os.getenv\<close> gives \<open>None\<close> for an unset
  variable), \<open>draws\<close> the module-level random generator, \<open>today\<close> the date as
  \<open>strftime('%b %d')\<close> prints it, \<open>raises c\<close> the exception the call \<open>c\<close> ends with, if
  any, \<open>response_id\<close> the value under \<open>'id'\<close> in the response of the insert request,
  if it has one, and \<open>float_ops\<close> the floating-point arithmetic of the machine.
\<close>

section \<open>Building the video\<close>

text \<open>
  \<open>random.sample(population, k)\<close>: ValueError when \<open>k\<close> exceeds the population;
  otherwise \<open>k\<close> picks without replacement, each pick taken out of the pool by moving the
  pool's last element into its place.
\<close>

fun sample_loop :: "gen \<Rightarrow> 'a list \<Rightarrow> nat \<Rightarrow> 'a list" where
  "sample_loop g pool 0 = []"
| "sample_loop g pool (Suc k) =
     (let (j, g') = randbelow g (length pool)
      in pool ! j # sample_loop g' (butlast (pool[j := last pool])) k)"

definition random_sample :: "gen \<Rightarrow> 'a list \<Rightarrow> nat \<Rightarrow> exn + 'a list" where
  "random_sample g population k =
     (if length population < k
      then Inl (Exn ''ValueError'' ''Sample larger than population or is negative'')
      else Inr (sample_loop g population k))"

definition fighters :: "(string \<times> string) list" where
  "fighters =
     [(''KAZE'', ''#ff3b3b''), (''RYU'', ''#35f0ff''), (''AKIRA'', ''#ffd23b''),
      (''SHIN'', ''#b05cff''), (''YUMI'', ''#7bff7b''), (''REI'', ''#ff7be7'')]"

text \<open>
  \<open>left, right = random.sample(fighters, 2)\<close>: the unpacking raises unless the sample
  has exactly two elements.
\<close>

definition choose_fighters :: "gen \<Rightarrow> exn + ((string \<times> string) \<times> (string \<times> string))" where
  "choose_fighters g =
     (case random_sample g fighters 2 of
        Inl e \<Rightarrow> Inl e
      | Inr [l, r] \<Rightarrow> Inr (l, r)
      | Inr _ \<Rightarrow> Inl (Exn ''ValueError'' ''wrong number of values to unpack''))"

text \<open>The en dash of the title card, in UTF-8.\<close>

definition en_dash :: string where
  "en_dash = [CHR 0xE2, CHR 0x80, CHR 0x93]"

definition impact_times :: "real list" where
  "impact_times = [3.6, 4.2, 5.1, 6.0, 6.9, 7.8, 8.6, 9.2]"

text \<open>
  The layers of the composite, each with its start and its duration.  Positions, fonts,
  sizes, fades and the mirror effect are left out.
\<close>

datatype visual =
  ColorClip "nat \<times> nat \<times> nat"
  | TextClip string string
  | FrameClip video_clip

record layer =
  visual :: visual
  start :: real
  len :: real

record composite =
  layers :: "layer list"
  comp_size :: "int \<times> int"
  comp_fps :: nat
  audio :: "audio_clip option"

definition flash_clip :: "real \<Rightarrow> real \<Rightarrow> layer" where
  "flash_clip dur t = \<lparr>visual = ColorClip (255, 255, 255), start = t, len = dur\<rparr>"

definition lines_layer :: "exn + video_clip \<Rightarrow> real \<Rightarrow> exn + layer" where
  "lines_layer r t =
     (case r of Inl e \<Rightarrow> Inl e
      | Inr c \<Rightarrow> Inr \<lparr>visual = FrameClip c, start = t, len = duration c\<rparr>)"

text \<open>
  Lines 73 to 130.  The variable \<open>audio\<close> of lines 113 to 119 is never read after its
  loop: the composite gets \<open>base_tone\<close> as its audio, and nothing else.
\<close>

definition compose :: "world \<Rightarrow> exn + composite" where
  "compose w =
     (case choose_fighters (draws w) of
        Inl e \<Rightarrow> Inl e
      | Inr (left, right) \<Rightarrow>
     (case lines_layer (speedlines_clip (float_ops w) 2.5 16 (- 20) 500 0.35) 3.2 of
        Inl e \<Rightarrow> Inl e
      | Inr lines1 \<Rightarrow>
     (case lines_layer (speedlines_clip (float_ops w) 2.5 18 20 600 0.25) 5.7 of
        Inl e \<Rightarrow> Inl e
      | Inr lines2 \<Rightarrow>
     (let bg = \<lparr>visual = ColorClip (10, 10, 18), start = 0, len = DUR\<rparr>;
          title = \<lparr>visual = TextClip (''ANIME FIGHT '' @ en_dash @ '' '' @ today w) ''white'',
                   start = 0, len = 1.5\<rparr>;
          left_clip = \<lparr>visual = TextClip (fst left) (snd left), start = 1.5, len = 2.5\<rparr>;
          right_clip = \<lparr>visual = TextClip (fst right) (snd right), start = 1.5, len = 2.5\<rparr>;
          vs = \<lparr>visual = TextClip ''VS'' ''white'', start = 1.6, len = 2.5\<rparr>;
          action_bg = \<lparr>visual = ColorClip (15, 8, 24), start = 3.2, len = 7\<rparr>;
          flashes = map (flash_clip 0.08) impact_times;
          slash = \<lparr>visual = TextClip ''/'' ''white'', start = 4.9, len = 0.25\<rparr>;
          slash2 = slash\<lparr>start := 7.2\<rparr>;
          video = \<lparr>layers = [bg, title, left_clip, right_clip, vs,
                             action_bg, lines1, lines2, slash, slash2] @ flashes,
                   comp_size = (W, H), comp_fps = FPS, audio = None\<rparr>;
          base_tone = tone 440 DUR 0.03
      in Inr (video\<lparr>audio := Some base_tone\<rparr>)))))"

section \<open>Effects\<close>

text \<open>
  A run leaves a trace of what it did, in order, and ends with a value or with the
  exception that escaped.
\<close>

datatype event = Called call | Printed string | Write_videofile composite string

type_synonym 'a io = "event list \<times> (exn + 'a)"

definition bind_io :: "'a io \<Rightarrow> ('a \<Rightarrow> 'b io) \<Rightarrow> 'b io" where
  "bind_io m f =
     (case m of
        (tr, Inl e) \<Rightarrow> (tr, Inl e)
      | (tr, Inr x) \<Rightarrow> (case f x of (tr', r) \<Rightarrow> (tr @ tr', r)))"

definition print :: "string \<Rightarrow> unit io" where
  "print s = ([Printed s], Inr ())"

definition ext :: "world \<Rightarrow> call \<Rightarrow> unit io" where
  "ext w c = ([Called c], case raises w c of None \<Rightarrow> Inr () | Some e \<Rightarrow> Inl e)"

definition write_videofile :: "world \<Rightarrow> composite \<Rightarrow> string \<Rightarrow> unit io" where
  "write_videofile w video path =
     ([Write_videofile video path], case raises w Encode of None \<Rightarrow> Inr () | Some e \<Rightarrow> Inl e)"

definition build_video :: "world \<Rightarrow> string io" where
  "build_video w =
     bind_io (ext w Makedirs) (\<lambda>_.
     bind_io (ext w Compose) (\<lambda>_.
     bind_io ([], compose w) (\<lambda>video.
     bind_io (print ''Rendering video...'') (\<lambda>_.
     bind_io (write_videofile w video OUT_PATH) (\<lambda>_.
     bind_io (print (''Saved: '' @ OUT_PATH)) (\<lambda>_.
     ([], Inr OUT_PATH)))))))"

section \<open>Upload\<close>

text \<open>Truthiness of what \<open>os.getenv\<close> returns: \<open>None\<close> and the empty string are false.\<close>

definition truthy :: "string option \<Rightarrow> bool" where
  "truthy v = (case v of None \<Rightarrow> False | Some s \<Rightarrow> s \<noteq> [])"

text \<open>
  The body of the \<open>try\<close>.  The request body and the media object are fixed data handed
  to the calls and are left out; \<open>resp['id']\<close> raises KeyError when the response has no
  such key.
\<close>

definition upload_body :: "world \<Rightarrow> string \<Rightarrow> unit io" where
  "upload_body w video_path =
     bind_io (ext w ImportGoogle) (\<lambda>_.
     bind_io (ext w Credentials) (\<lambda>_.
     bind_io (ext w Build) (\<lambda>_.
     bind_io (ext w MediaFileUpload) (\<lambda>_.
     bind_io (print ''Uploading to YouTube...'') (\<lambda>_.
     bind_io (ext w InsertExecute) (\<lambda>_.
     (case response_id w of
        None \<Rightarrow> ([], Inl (Exn ''KeyError'' [CHR 0x27, CHR ''i'', CHR ''d'', CHR 0x27]))
      | Some i \<Rightarrow> print (''Uploaded: https://www.youtube.com/watch?v='' @ i))))))))"

text \<open>\<open>except Exception as e\<close>: an \<open>Exn\<close> is caught and printed, a \<open>BaseExn\<close> escapes.\<close>

definition maybe_upload_to_youtube :: "world \<Rightarrow> string \<Rightarrow> unit io" where
  "maybe_upload_to_youtube w video_path =
     (let cid = env w ''YT_CLIENT_ID'';
          csec = env w ''YT_CLIENT_SECRET'';
          rtok = env w ''YT_REFRESH_TOKEN''
      in if \<not> (truthy cid \<and> truthy csec \<and> truthy rtok)
         then print ''YouTube secrets not set. Skipping upload.''
         else (case upload_body w video_path of
                 (tr, Inl (Exn cls msg)) \<Rightarrow>
                   (tr @ [Printed (''YouTube upload failed: '' @ msg)], Inr ())
               | (tr, r) \<Rightarrow> (tr, r)))"

definition main :: "world \<Rightarrow> unit io" where
  "main w = bind_io (build_video w) (\<lambda>path. maybe_upload_to_youtube w path)"

text \<open>The rendering calls of \<open>build_video\<close> all return.\<close>

definition build_ok :: "world \<Rightarrow> bool" where
  "build_ok w \<longleftrightarrow>
     raises w Makedirs = None \<and> raises w Compose = None \<and> raises w Encode = None"

section \<open>Names used in the statements\<close>

text \<open>The external calls of the upload step, and all three secrets being set and non-empty.\<close>

definition upload_calls :: "call list" where
  "upload_calls = [ImportGoogle, Credentials, Build, MediaFileUpload, InsertExecute]"

definition secrets_set :: "world \<Rightarrow> bool" where
  "secrets_set w \<longleftrightarrow>
     truthy (env w ''YT_CLIENT_ID'') \<and> truthy (env w ''YT_CLIENT_SECRET'') \<and>
     truthy (env w ''YT_REFRESH_TOKEN'')"

text \<open>
  Five surroundings to run the script in.  In all of them the generator draws zeros.  In the
  first four rendering succeeds: no secret is set in the first; in the second the client id
  is set to the empty string; in the next two all secrets are set and the insert request
  ends with an HTTP error, respectively with a keyboard interrupt.  In the last no secret is
  set and the construction of the clips raises AttributeError, as it does when the
  library's audio clips have no \<open>set_audio\<close> (line 115).
\<close>

definition quiet_world :: world where
  "quiet_world =
     \<lparr>env = (\<lambda>k. None), draws = (\<lambda>k. 0), today = ''Nov 03'', raises = (\<lambda>c. None),
      response_id = None, float_ops = exact\<rparr>"

definition empty_id_world :: world where
  "empty_id_world =
     \<lparr>env = (\<lambda>k. if k = ''YT_CLIENT_ID'' then Some [] else Some ''x''), draws = (\<lambda>k. 0),
      today = ''Nov 03'', raises = (\<lambda>c. None), response_id = Some ''abc'',
      float_ops = exact\<rparr>"

definition failing_world :: world where
  "failing_world =
     \<lparr>env = (\<lambda>k. Some ''x''), draws = (\<lambda>k. 0), today = ''Nov 03'',
      raises = (\<lambda>c. if c = InsertExecute then Some (Exn ''HttpError'' ''quota exceeded'') else None),
      response_id = None, float_ops = exact\<rparr>"

definition interrupted_world :: world where
  "interrupted_world =
     \<lparr>env = (\<lambda>k. Some ''x''), draws = (\<lambda>k. 0), today = ''Nov 03'',
      raises = (\<lambda>c. if c = InsertExecute then Some (BaseExn ''KeyboardInterrupt'' []) else None),
      response_id = None, float_ops = exact\<rparr>"


section \<open>Properties of the speed-line frames\<close>

lemma length_set_slice: "length (set_slice x k row) = length row"
  by (simp add: set_slice_def)

lemma nth_set_slice:
  "c < length row \<Longrightarrow>
   set_slice x k row ! c =
     (if x \<le> int c \<and> int c < x + k then map (\<lambda>_. 255) (row ! c) else row ! c)"
  by (simp add: set_slice_def)

lemma length_cols_loop: "length (cols_loop fl dx p th s y xs row) = length row"
  by (induction xs arbitrary: row) (simp_all add: Let_def length_set_slice)

lemma nth_cols_loop:
  "c < length row \<Longrightarrow>
   cols_loop fl dx p th s y xs row ! c =
     (if \<exists>x\<in>set xs. lit fl dx p th s y x \<and> x \<le> int c \<and> int c < x + th
      then map (\<lambda>_. 255) (row ! c) else row ! c)"
proof (induction xs arbitrary: row)
  case Nil
  then show ?case by simp
next
  case (Cons x xs)
  then show ?case
    by (auto simp add: Let_def length_set_slice nth_set_slice lit_def)
qed

lemma rows_loop_zero_period:
  "ys \<noteq> [] \<Longrightarrow> rows_loop fl dx 0 th s ys img = Inl (Exn ''ValueError'' ''range() arg 3 must not be zero'')"
  by (cases ys) (simp_all add: py_range_def)

lemma rows_loop_distinct:
  assumes "py_range 0 W p = Inr xs" "distinct ys"
  shows "\<exists>img'. rows_loop fl dx p th s ys img = Inr img' \<and> length img' = length img \<and>
     (\<forall>y < length img. img' ! y =
        (if y \<in> set ys then cols_loop fl dx p th s y xs (img ! y) else img ! y))"
  using assms(2)
proof (induction ys arbitrary: img)
  case Nil
  then show ?case by simp
next
  case (Cons y ys)
  let ?img1 = "img[y := cols_loop fl dx p th s y xs (img ! y)]"
  from Cons obtain img' where
    r: "rows_loop fl dx p th s ys ?img1 = Inr img'" and
    l: "length img' = length ?img1" and
    n: "\<forall>z < length ?img1. img' ! z =
        (if z \<in> set ys then cols_loop fl dx p th s z xs (?img1 ! z) else ?img1 ! z)"
    by (metis distinct.simps(2))
  have "rows_loop fl dx p th s (y # ys) img = Inr img'"
    using r assms(1) by simp
  moreover have "length img' = length img" using l by simp
  moreover have "\<forall>z < length img. img' ! z =
        (if z \<in> set (y # ys) then cols_loop fl dx p th s z xs (img ! z) else img ! z)"
  proof (intro allI impI)
    fix z assume z: "z < length img"
    show "img' ! z =
        (if z \<in> set (y # ys) then cols_loop fl dx p th s z xs (img ! z) else img ! z)"
    proof (cases "z = y")
      case True
      then have "z \<notin> set ys" using Cons.prems by simp
      then show ?thesis using n z True by simp
    next
      case False
      then show ?thesis using n z by simp
    qed
  qed
  ultimately show ?case by blast
qed

lemma less_ceil_div_iff:
  fixes k n p :: int
  assumes "0 < p"
  shows "k < (n + p - 1) div p \<longleftrightarrow> k * p < n"
proof -
  define q where "q = (n + p - 1) div p"
  define r where "r = (n + p - 1) mod p"
  have e: "q * p + r = n + p - 1" by (simp add: q_def r_def)
  have r: "0 \<le> r" "r < p" using assms by (simp_all add: r_def)
  show ?thesis
  proof
    assume "k < (n + p - 1) div p"
    then have "k + 1 \<le> q" by (simp add: q_def)
    then have "(k + 1) * p \<le> q * p" using assms by (simp add: mult_right_mono)
    then show "k * p < n" using e r by (simp add: algebra_simps)
  next
    assume "k * p < n"
    then have "k * p + p \<le> q * p + r" using e by simp
    then have "k * p + p < q * p + p" using r by linarith
    then have "(k + 1) * p < (q + 1) * p" by (simp add: algebra_simps)
    then have "k + 1 < q + 1" using assms by (simp add: mult_less_cancel_right)
    then show "k < (n + p - 1) div p" by (simp add: q_def)
  qed
qed

lemma set_py_range:
  assumes "0 < p"
  shows "\<exists>xs. py_range 0 W p = Inr xs \<and> set xs = {x. 0 \<le> x \<and> x < W \<and> p dvd x}"
proof -
  let ?n = "nat ((W + p - 1) div p)"
  let ?xs = "map (\<lambda>k. 0 + int k * p) [0..<?n]"
  have r: "py_range 0 W p = Inr ?xs" using assms by (simp add: py_range_def)
  have "set ?xs = {x. 0 \<le> x \<and> x < W \<and> p dvd x}"
  proof (intro set_eqI iffI)
    fix x assume "x \<in> set ?xs"
    then obtain k where k: "k < ?n" "x = int k * p" by auto
    then have "int k < (W + p - 1) div p" by simp
    then have "int k * p < W" using assms by (simp add: less_ceil_div_iff)
    then show "x \<in> {x. 0 \<le> x \<and> x < W \<and> p dvd x}" using k assms by simp
  next
    fix x assume "x \<in> {x. 0 \<le> x \<and> x < W \<and> p dvd x}"
    then obtain j where j: "x = p * j" "0 \<le> x" "x < W" by (auto simp: dvd_def)
    then have j0: "0 \<le> j" using assms by (simp add: zero_le_mult_iff)
    have "j * p < W" using j by (simp add: mult.commute)
    then have "j < (W + p - 1) div p" using assms by (simp add: less_ceil_div_iff)
    then have "nat j < ?n" using j0 by simp
    moreover have "x = 0 + int (nat j) * p" using j j0 by simp
    ultimately show "x \<in> set ?xs" by (auto simp add: image_iff intro!: bexI[of _ "nat j"])
  qed
  with r show ?thesis by blast
qed

lemma stride_iff:
  fixes c p th :: int
  assumes "0 < p" "th \<le> p" "0 \<le> c" "c < W"
  shows "(\<exists>x\<in>{x. 0 \<le> x \<and> x < W \<and> p dvd x}. P x \<and> x \<le> c \<and> c < x + th)
     \<longleftrightarrow> (c mod p < th \<and> P (c - c mod p))"
proof
  assume "\<exists>x\<in>{x. 0 \<le> x \<and> x < W \<and> p dvd x}. P x \<and> x \<le> c \<and> c < x + th"
  then obtain j where j: "P (p * j)" "p * j \<le> c" "c < p * j + th" by (auto simp: dvd_def)
  have m: "c mod p = c - p * j"
  proof (rule int_mod_pos_eq[where q = j])
    show "c = p * j + (c - p * j)" by simp
    show "0 \<le> c - p * j" using j by simp
    show "c - p * j < p" using j assms by simp
  qed
  then show "c mod p < th \<and> P (c - c mod p)" using j by simp
next
  assume a: "c mod p < th \<and> P (c - c mod p)"
  let ?x = "c - c mod p"
  have "p dvd ?x" by (simp add: dvd_minus_mod)
  moreover have m0: "0 \<le> c mod p" using assms by simp
  moreover have "0 \<le> ?x"
    using assms by (simp add: zmod_le_nonneg_dividend)
  moreover have "?x \<le> c" using m0 by linarith
  moreover have "?x < W" using assms m0 by linarith
  moreover have "c < ?x + th" using a by simp
  ultimately show "\<exists>x\<in>{x. 0 \<le> x \<and> x < W \<and> p dvd x}. P x \<and> x \<le> c \<and> c < x + th"
    using a by blast
qed

lemma make_frame_stripes:
  assumes "0 < p" "th \<le> p"
  shows "make_frame fl dx p th speed t =
           Inr (stripe_frame (lit fl dx p th (py_int (f_mul fl speed t))) p th)"
proof -
  let ?s = "py_int (f_mul fl speed t)"
  let ?z = "np_zeros (nat H) (nat W) 3"
  from set_py_range[OF assms(1)] obtain xs where
    xs: "py_range 0 W p = Inr xs" "set xs = {x. 0 \<le> x \<and> x < W \<and> p dvd x}" by blast
  from rows_loop_distinct[OF xs(1), of "[0..<nat H]" fl dx th ?s ?z] obtain img' where
    r: "rows_loop fl dx p th ?s [0..<nat H] ?z = Inr img'" and
    l: "length img' = length ?z" and
    n: "\<forall>y < length ?z. img' ! y =
        (if y \<in> set [0..<nat H] then cols_loop fl dx p th ?s y xs (?z ! y) else ?z ! y)"
    by auto
  have lz: "length ?z = nat H" by (simp add: np_zeros_def)
  have "img' = stripe_frame (lit fl dx p th ?s) p th"
  proof (rule nth_equalityI)
    show "length img' = length (stripe_frame (lit fl dx p th ?s) p th)"
      using l lz by (simp add: stripe_frame_def)
  next
    fix y assume "y < length img'"
    then have y: "y < nat H" using l lz by simp
    then have zy: "?z ! y = replicate (nat W) (replicate 3 0)" by (simp add: np_zeros_def)
    have iy: "img' ! y = cols_loop fl dx p th ?s y xs (replicate (nat W) (replicate 3 0))"
      using n y lz zy by simp
    show "img' ! y = stripe_frame (lit fl dx p th ?s) p th ! y"
    proof (rule nth_equalityI)
      show "length (img' ! y) = length (stripe_frame (lit fl dx p th ?s) p th ! y)"
        using y by (simp add: iy length_cols_loop stripe_frame_def)
    next
      fix c assume "c < length (img' ! y)"
      then have c: "c < nat W" by (simp add: iy length_cols_loop)
      then have c': "0 \<le> int c" "int c < W" by simp_all
      have "img' ! y ! c =
        (if \<exists>x\<in>set xs. lit fl dx p th ?s y x \<and> x \<le> int c \<and> int c < x + th
         then [255, 255, 255] else [0, 0, 0])"
        using c by (auto simp add: iy nth_cols_loop numeral_3_eq_3)
      also have "\<dots> = (if int c mod p < th \<and> lit fl dx p th ?s y (int c - int c mod p)
         then [255, 255, 255] else [0, 0, 0])"
        using stride_iff[OF assms c', of "lit fl dx p th ?s y"] by (simp add: xs(2))
      also have "\<dots> = stripe_frame (lit fl dx p th ?s) p th ! y ! c"
        using y c by (simp add: stripe_frame_def)
      finally show "img' ! y ! c = stripe_frame (lit fl dx p th ?s) p th ! y ! c" .
    qed
  qed
  then show ?thesis using r by (simp add: make_frame_def Let_def)
qed








lemma thickness_le_period:
  fixes p :: int
  assumes "1 \<le> p"
  shows "max 1 (p div 3) \<le> p"
proof -
  have "p div 3 \<le> p" using assms by (simp add: int_div_le_self)
  then show ?thesis using assms by simp
qed

lemma period_pos:
  assumes "1 \<le> density" "density \<le> W"
  shows "1 \<le> W div density"
proof -
  have "0 < W div density" using assms by (simp add: pos_imp_zdiv_pos_iff)
  then show ?thesis by simp
qed

lemma rgb_buffer_stripe_frame: "rgb_buffer 1280 720 (stripe_frame on p th)"
  by (auto simp add: rgb_buffer_def stripe_frame_def list_all_iff W_def H_def)

lemma speedlines_clip_ok:
  assumes "density \<noteq> 0"
  shows "speedlines_clip fl dur density angle_deg speed opac =
     Inr \<lparr>get_frame = make_frame fl (f_cos fl (f_radians fl angle_deg)) (W div density)
                         (max 1 (W div density div 3)) speed,
          duration = dur, fps = FPS, opacity = opac\<rparr>"
  using assms by (simp add: speedlines_clip_def py_floordiv_def Let_def)

lemma exact_simps:
  "f_mul exact a b = a * b" "f_add exact a b = a + b" "f_cos exact = cos"
  "f_radians exact = radians"
  by (simp_all add: exact_def)



text \<open>
  C8, as amended.  For every time \<open>t \<ge> 0\<close> and every density from 1 to 720, whatever the
  floating-point arithmetic rounds to, the clip is built and its frame at \<open>t\<close> is returned:
  an array of shape (1280, 720, 3) of bytes, every entry 0 or 255, whatever \<open>t\<close> is.  (The
  bound 720 is the width \<open>W\<close>: see the next theorem but one.)
\<close>

theorem speedlines_frame_shape:
  assumes "0 \<le> t" "1 \<le> density" "density \<le> 720"
  shows "\<exists>clip img. speedlines_clip fl dur density angle_deg speed opac = Inr clip \<and>
           get_frame clip t = Inr img \<and> rgb_buffer 1280 720 img"
proof -
  let ?p = "W div density"
  let ?dx = "f_cos fl (f_radians fl angle_deg)"
  have p: "1 \<le> ?p" using assms by (intro period_pos) (simp_all add: W_def)
  have "make_frame fl ?dx ?p (max 1 (?p div 3)) speed t =
        Inr (stripe_frame (lit fl ?dx ?p (max 1 (?p div 3)) (py_int (f_mul fl speed t)))
               ?p (max 1 (?p div 3)))"
    using p thickness_le_period[OF p] by (intro make_frame_stripes) simp_all
  moreover have "density \<noteq> 0" using assms by simp
  ultimately show ?thesis
    using rgb_buffer_stripe_frame by (simp add: speedlines_clip_ok)
qed

text \<open>The default parameters, at one second, in the arithmetic that does not round.\<close>

theorem speedlines_frame_shape_witness:
  "\<exists>clip img. speedlines_clip exact 4 14 (- 25) 600 0.35 = Inr clip \<and>
           get_frame clip 1 = Inr img \<and> rgb_buffer 1280 720 img"
  using speedlines_frame_shape[of 1 14 exact 4 "- 25" 600 "0.35"] by simp

text \<open>
  C8 as stated fails for a density above the width: with density 721 the period is
  \<open>720 // 721 = 0\<close>, and the frame function raises ValueError at \<open>range(0, W, 0)\<close> instead
  of returning a buffer.  No rounding is involved.
\<close>

theorem speedlines_density_721_raises:
  "speedlines_clip exact 4 721 (- 25) 600 0.35 =
     Inr \<lparr>get_frame = make_frame exact (cos (radians (- 25))) 0 1 600,
          duration = 4, fps = 24, opacity = 0.35\<rparr> \<and>
   make_frame exact (cos (radians (- 25))) 0 1 600 0 =
     Inl (Exn ''ValueError'' ''range() arg 3 must not be zero'')"
proof -
  have "[0..<nat H] \<noteq> []" by (simp add: H_def)
  then have "make_frame exact (cos (radians (- 25))) 0 1 600 0 =
      Inl (Exn ''ValueError'' ''range() arg 3 must not be zero'')"
    by (simp add: make_frame_def Let_def rows_loop_zero_period)
  moreover have "W div 721 = 0" by (simp add: W_def)
  ultimately show ?thesis by (simp add: speedlines_clip_ok FPS_def exact_simps)
qed







section \<open>Properties of the composite\<close>

lemma take_out_set:
  assumes "distinct pool" "j < length pool"
  shows "set (butlast (pool[j := last pool])) = set pool - {pool ! j}"
    and "distinct (butlast (pool[j := last pool]))"
proof -
  from assms(2) have ne: "pool \<noteq> []" by auto
  then obtain xs l where pool: "pool = xs @ [l]" by (metis rev_exhaust)
  with assms(1) have d: "distinct xs" "l \<notin> set xs" by simp_all
  show "set (butlast (pool[j := last pool])) = set pool - {pool ! j}"
  proof (cases "j < length xs")
    case True
    then have "butlast (pool[j := last pool]) = xs[j := l]"
      by (simp add: pool list_update_append)
    moreover have "set (xs[j := l]) = insert l (set xs - {xs ! j})"
      using d True by (simp add: set_update_distinct)
    moreover have "pool ! j = xs ! j" using True by (simp add: pool nth_append)
    moreover have "xs ! j \<noteq> l" using d True by (metis nth_mem)
    ultimately show ?thesis using d by (auto simp: pool)
  next
    case False
    with assms(2) have j: "j = length xs" by (simp add: pool)
    then have "butlast (pool[j := last pool]) = xs" by (simp add: pool)
    moreover have "pool ! j = l" using j by (simp add: pool)
    ultimately show ?thesis using d by (auto simp: pool)
  qed
  show "distinct (butlast (pool[j := last pool]))"
  proof (cases "j < length xs")
    case True
    then have "butlast (pool[j := last pool]) = xs[j := l]"
      by (simp add: pool list_update_append)
    then show ?thesis using d by (simp add: distinct_list_update)
  next
    case False
    with assms(2) have j: "j = length xs" by (simp add: pool)
    then have "butlast (pool[j := last pool]) = xs" by (simp add: pool)
    then show ?thesis using d by simp
  qed
qed

lemma sample_loop_distinct:
  assumes "distinct pool" "k \<le> length pool"
  shows "distinct (sample_loop g pool k) \<and> set (sample_loop g pool k) \<subseteq> set pool \<and>
         length (sample_loop g pool k) = k"
  using assms
proof (induction k arbitrary: g pool)
  case 0
  then show ?case by simp
next
  case (Suc k)
  let ?j = "g 0 mod length pool"
  let ?pool' = "butlast (pool[?j := last pool])"
  let ?g' = "\<lambda>i. g (Suc i)"
  from Suc.prems have n: "0 < length pool" by (cases pool) simp_all
  then have j: "?j < length pool" by simp
  have s: "set ?pool' = set pool - {pool ! ?j}" and d: "distinct ?pool'"
    using take_out_set[OF Suc.prems(1) j] by simp_all
  have "k \<le> length ?pool'" using Suc.prems(2) by simp
  from Suc.IH[OF d this, of ?g']
  have ih: "distinct (sample_loop ?g' ?pool' k)" "set (sample_loop ?g' ?pool' k) \<subseteq> set ?pool'"
    "length (sample_loop ?g' ?pool' k) = k" by simp_all
  have e: "sample_loop g pool (Suc k) = pool ! ?j # sample_loop ?g' ?pool' k"
    by (simp add: randbelow_def)
  have "pool ! ?j \<notin> set (sample_loop ?g' ?pool' k)" using ih(2) s by auto
  moreover have "pool ! ?j \<in> set pool" using j by simp
  ultimately show ?case unfolding e using ih s by auto
qed

lemma distinct_fighters: "distinct (map fst fighters)" "length fighters = 6"
  by (simp_all add: fighters_def)

lemma choose_fighters_distinct:
  "\<exists>left right. choose_fighters g = Inr (left, right) \<and> left \<noteq> right \<and>
     left \<in> set fighters \<and> right \<in> set fighters \<and> fst left \<noteq> fst right"
proof -
  have d: "distinct fighters" using distinct_fighters(1) by (rule distinct_map[THEN iffD1, THEN conjunct1])
  have k: "2 \<le> length fighters" by (simp add: distinct_fighters)
  from sample_loop_distinct[OF d k, of g]
  have s: "distinct (sample_loop g fighters 2)" "set (sample_loop g fighters 2) \<subseteq> set fighters"
    "length (sample_loop g fighters 2) = 2" by simp_all
  from s(3) obtain l r where lr: "sample_loop g fighters 2 = [l, r]"
    by (auto simp add: length_Suc_conv numeral_2_eq_2)
  have c: "choose_fighters g = Inr (l, r)"
    using lr k by (simp add: choose_fighters_def random_sample_def)
  have m: "l \<noteq> r" "l \<in> set fighters" "r \<in> set fighters" using s lr by simp_all
  have "inj_on fst (set fighters)" using distinct_fighters(1) by (simp add: distinct_map)
  then have "fst l \<noteq> fst r" using m by (auto dest: inj_onD)
  with c m show ?thesis by blast
qed

lemma lines_layers_ok:
  "\<exists>l1 l2. lines_layer (speedlines_clip fl 2.5 16 (- 20) 500 0.35) 3.2 = Inr l1 \<and>
           lines_layer (speedlines_clip fl 2.5 18 20 600 0.25) 5.7 = Inr l2"
  by (simp add: lines_layer_def speedlines_clip_ok)

lemma compose_ok:
  assumes "choose_fighters (draws w) = Inr (left, right)"
  shows "\<exists>video. compose w = Inr video \<and>
           audio video = Some (tone 440 DUR 0.03) \<and>
           visual (layers video ! 2) = TextClip (fst left) (snd left) \<and>
           visual (layers video ! 3) = TextClip (fst right) (snd right)"
proof -
  from lines_layers_ok[of "float_ops w"] obtain l1 l2 where
    "lines_layer (speedlines_clip (float_ops w) 2.5 16 (- 20) 500 0.35) 3.2 = Inr l1"
    "lines_layer (speedlines_clip (float_ops w) 2.5 18 20 600 0.25) 5.7 = Inr l2" by blast
  then show ?thesis using assms by (simp add: compose_def Let_def)
qed

lemma compose_total: "\<exists>video. compose w = Inr video"
proof -
  from choose_fighters_distinct[of "draws w"] obtain left right where
    "choose_fighters (draws w) = Inr (left, right)" by blast
  from compose_ok[OF this] show ?thesis by blast
qed

text \<open>
  C4.  In every run the two fighters chosen are distinct entries of the roster of six,
  KAZE, RYU, AKIRA, SHIN, YUMI, REI, with distinct names, and they are the two whose names
  the composite shows.
\<close>

theorem two_distinct_roster_fighters:
  "\<exists>left right video.
     choose_fighters (draws w) = Inr (left, right) \<and>
     left \<noteq> right \<and> fst left \<noteq> fst right \<and>
     left \<in> set fighters \<and> right \<in> set fighters \<and>
     map fst fighters = [''KAZE'', ''RYU'', ''AKIRA'', ''SHIN'', ''YUMI'', ''REI''] \<and>
     compose w = Inr video \<and>
     visual (layers video ! 2) = TextClip (fst left) (snd left) \<and>
     visual (layers video ! 3) = TextClip (fst right) (snd right)"
proof -
  from choose_fighters_distinct[of "draws w"] obtain left right where
    c: "choose_fighters (draws w) = Inr (left, right)" and
    d: "left \<noteq> right" "left \<in> set fighters" "right \<in> set fighters" "fst left \<noteq> fst right"
    by blast
  from compose_ok[OF c] obtain video where
    v: "compose w = Inr video" "visual (layers video ! 2) = TextClip (fst left) (snd left)"
       "visual (layers video ! 3) = TextClip (fst right) (snd right)" by blast
  have "map fst fighters = [''KAZE'', ''RYU'', ''AKIRA'', ''SHIN'', ''YUMI'', ''REI'']"
    by (simp add: fighters_def)
  with c d v show ?thesis
    by (intro exI[of _ left] exI[of _ right] exI[of _ video] conjI)
qed

lemma thump_after_impact: "samples (thump 0.2) 0.05 \<noteq> 0"
proof -
  have "(57 / 10 :: real) \<notin> \<int>"
  proof
    assume "(57 / 10 :: real) \<in> \<int>"
    then obtain k :: int where "57 / 10 = (of_int k :: real)" by (auto elim: Ints_cases)
    then have "(57 :: real) = of_int (10 * k)" by simp
    then have "(57 :: int) = 10 * k" by (metis of_int_eq_iff of_int_numeral)
    then show False by presburger
  qed
  then have "sin (57 / 10 * pi) \<noteq> 0" by (simp only: sin_times_pi_eq_0 not_False_eq_True)
  moreover have "2 * pi * (60 * (1 - 0.05)) * 0.05 = 57 / 10 * pi" by simp
  ultimately show ?thesis by (simp add: thump_def)
qed

section \<open>Properties of the helpers\<close>

text \<open>
  C6.  Each synthesizer is a closed-form function of the sample time \<open>t\<close> alone:
  \<open>tone\<close> gives \<open>vol * sin(2 pi freq t)\<close>, \<open>whoosh\<close> gives
  \<open>0.25 * sin(2 pi (80 + 220 t^2) t)\<close>, \<open>thump\<close> gives
  \<open>0.35 * sin(2 pi (60 (1 - t)) t) * exp(-6 t)\<close>, each with the duration it was given.
  The sample is a function of \<open>t\<close>, so two evaluations at the same \<open>t\<close> agree.
\<close>

theorem synthesizers_closed_form:
  "samples (tone freq dur vol) t = vol * sin (2 * pi * freq * t) \<and>
   samples (whoosh dur) t = 0.25 * sin (2 * pi * (80 + 220 * t\<^sup>2) * t) \<and>
   samples (thump dur) t = 0.35 * sin (2 * pi * (60 * (1 - t)) * t) * exp (- 6 * t) \<and>
   adur (tone freq dur vol) = dur \<and> adur (whoosh dur) = dur \<and> adur (thump dur) = dur"
  by (simp add: tone_def whoosh_def thump_def)

lemma randint_bounds:
  assumes "0 \<le> i"
  shows "\<exists>a g'. randint g (- i) i = Inr (a, g') \<and> - i \<le> a \<and> a \<le> i"
proof -
  have n: "0 < nat (i - (- i) + 1)" using assms by simp
  have "g 0 mod nat (i - (- i) + 1) < nat (i - (- i) + 1)" using n by (rule mod_less_divisor)
  then have "int (g 0 mod nat (i - (- i) + 1)) < 2 * i + 1" using assms by linarith
  moreover have "\<not> i < - i" using assms by simp
  ultimately show ?thesis by (simp add: randint_def randbelow_def)
qed

text \<open>
  C10.  For every intensity \<open>i \<ge> 0\<close> and every seeded generator, the position function of
  \<open>shake_pos(i)\<close> depends on \<open>t\<close> only through \<open>int(t*1000)\<close>, and it returns a pair
  whose two coordinates lie between \<open>-i\<close> and \<open>i\<close>.
\<close>

theorem shake_pos_bounded:
  assumes "0 \<le> i"
  shows "(py_int (t1 * 1000) = py_int (t2 * 1000) \<longrightarrow>
            shake_pos prng i t1 = shake_pos prng i t2) \<and>
         (\<exists>a b. shake_pos prng i t = Inr (a, b) \<and>
            - i \<le> a \<and> a \<le> i \<and> - i \<le> b \<and> b \<le> i)"
proof
  show "py_int (t1 * 1000) = py_int (t2 * 1000) \<longrightarrow>
          shake_pos prng i t1 = shake_pos prng i t2"
    by (simp add: shake_pos_def)
  from randint_bounds[OF assms, of "prng (py_int (t * 1000) + 42)"] obtain a g' where
    a: "randint (prng (py_int (t * 1000) + 42)) (- i) i = Inr (a, g')" "- i \<le> a" "a \<le> i"
    by blast
  from randint_bounds[OF assms, of g'] obtain b g'' where
    b: "randint g' (- i) i = Inr (b, g'')" "- i \<le> b" "b \<le> i" by blast
  show "\<exists>a b. shake_pos prng i t = Inr (a, b) \<and> - i \<le> a \<and> a \<le> i \<and> - i \<le> b \<and> b \<le> i"
    using a b by (simp add: shake_pos_def)
qed

text \<open>Intensity 10; the times 0.0101 and 0.0109 both truncate to 10 milliseconds.\<close>

theorem shake_pos_bounded_witness:
  "py_int (0.0101 * 1000) = py_int (0.0109 * 1000) \<and>
   shake_pos (\<lambda>seed k. nat seed + k) 10 0.0101 = shake_pos (\<lambda>seed k. nat seed + k) 10 0.0109 \<and>
   (\<exists>a b. shake_pos (\<lambda>seed k. nat seed + k) 10 0.0101 = Inr (a, b) \<and>
      - 10 \<le> a \<and> a \<le> 10 \<and> - 10 \<le> b \<and> b \<le> 10)"
proof -
  have e: "py_int (0.0101 * 1000) = py_int (0.0109 * 1000)"
    by (simp add: py_int_def)
  have h: "(0::int) \<le> 10" by simp
  show ?thesis
    using shake_pos_bounded[OF h, of "0.0101" "0.0109" "\<lambda>seed k. nat seed + k" "0.0101"] e
    by blast
qed

section \<open>Properties of the run\<close>

lemma bind_io_simps:
  "bind_io (tr, Inl e) f = (tr, Inl e)"
  "bind_io (tr, Inr x) f = (tr @ fst (f x), snd (f x))"
  by (simp_all add: bind_io_def split: prod.splits)

lemma build_video_ok:
  assumes "build_ok w"
  shows "\<exists>video. compose w = Inr video \<and>
     build_video w =
       ([Called Makedirs, Called Compose, Printed ''Rendering video...'',
         Write_videofile video ''out/video.mp4'', Printed ''Saved: out/video.mp4''],
        Inr ''out/video.mp4'')"
proof -
  from compose_total[of w] obtain video where v: "compose w = Inr video" by blast
  have "build_video w =
       ([Called Makedirs, Called Compose, Printed ''Rendering video...'',
         Write_videofile video ''out/video.mp4'', Printed ''Saved: out/video.mp4''],
        Inr ''out/video.mp4'')"
    using assms v
    by (simp add: build_video_def build_ok_def ext_def print_def write_videofile_def
        bind_io_simps OUT_PATH_def OUT_DIR_def)
  with v show ?thesis by blast
qed



lemma skip_when_falsy:
  assumes "\<not> secrets_set w"
  shows "maybe_upload_to_youtube w p = ([Printed ''YouTube secrets not set. Skipping upload.''], Inr ())"
  using assms unfolding secrets_set_def
  by (simp add: maybe_upload_to_youtube_def Let_def print_def)

lemma upload_body_cases:
  "(\<exists>tr. upload_body w p = (tr, Inr ())) \<or>
   (\<exists>tr. upload_body w p = (tr, Inl (Exn ''KeyError'' [CHR 0x27, CHR ''i'', CHR ''d'', CHR 0x27]))
      \<and> response_id w = None) \<or>
   (\<exists>tr c e. upload_body w p = (tr @ [Called c], Inl e) \<and> c \<in> set upload_calls \<and>
      raises w c = Some e)"
  unfolding upload_body_def upload_calls_def ext_def print_def
  by (auto simp add: bind_io_simps split: option.splits)

lemma upload_body_raised:
  assumes "c \<in> set upload_calls" "raises w c \<noteq> None"
  shows "\<exists>tr c' e. upload_body w p = (tr @ [Called c'], Inl e) \<and> c' \<in> set upload_calls \<and>
      raises w c' = Some e"
  using assms unfolding upload_body_def upload_calls_def ext_def print_def
  by (auto simp add: bind_io_simps split: option.splits)

lemma maybe_upload_caught:
  assumes "secrets_set w" "upload_body w p = (tr, Inl (Exn cls msg))"
  shows "maybe_upload_to_youtube w p = (tr @ [Printed (''YouTube upload failed: '' @ msg)], Inr ())"
  using assms by (simp add: maybe_upload_to_youtube_def secrets_set_def Let_def)

lemma maybe_upload_escapes:
  assumes "secrets_set w" "upload_body w p = (tr, Inl (BaseExn cls msg))"
  shows "maybe_upload_to_youtube w p = (tr, Inl (BaseExn cls msg))"
  using assms by (simp add: maybe_upload_to_youtube_def secrets_set_def Let_def)

lemma maybe_upload_done:
  assumes "secrets_set w" "upload_body w p = (tr, Inr ())"
  shows "maybe_upload_to_youtube w p = (tr, Inr ())"
  using assms by (simp add: maybe_upload_to_youtube_def secrets_set_def Let_def)

lemma maybe_upload_returns:
  assumes "\<forall>c cls msg. raises w c \<noteq> Some (BaseExn cls msg)"
  shows "snd (maybe_upload_to_youtube w p) = Inr ()"
proof (cases "secrets_set w")
  case False
  then show ?thesis by (simp add: skip_when_falsy)
next
  case True
  from upload_body_cases[of w p] consider
    tr where "upload_body w p = (tr, Inr ())"
    | tr where "upload_body w p = (tr, Inl (Exn ''KeyError'' [CHR 0x27, CHR ''i'', CHR ''d'', CHR 0x27]))"
    | tr c e where "upload_body w p = (tr @ [Called c], Inl e)" "raises w c = Some e"
    by blast
  then show ?thesis
  proof cases
    case 1
    then show ?thesis using True by (simp add: maybe_upload_done)
  next
    case 2
    then show ?thesis using True by (simp add: maybe_upload_caught)
  next
    case 3
    with assms obtain cls msg where "e = Exn cls msg" by (cases e) auto
    with 3 show ?thesis using True by (simp add: maybe_upload_caught)
  qed
qed

text \<open>
  C1 does not hold of the code.  For every choice of fighters the audio of the composite is
  \<open>tone(440, DUR, vol=0.03)\<close> and nothing else, and that composite is the one handed to
  \<open>write_videofile\<close>.  Its sample at any time is \<open>0.03 * sin(2 pi 440 t)\<close>.  The whoosh and
  the thumps are not in it: 0.05 seconds after the impact at 3.6 the thump's sample is not
  zero, so the tone alone differs there from the tone with the thump laid over it.
\<close>

theorem composite_audio_is_base_tone:
  "\<exists>video. compose w = Inr video \<and>
     audio video = Some (tone 440 DUR 0.03) \<and>
     (build_ok w \<longrightarrow>
        build_video w =
          ([Called Makedirs, Called Compose, Printed ''Rendering video...'',
            Write_videofile video ''out/video.mp4'', Printed ''Saved: out/video.mp4''],
           Inr ''out/video.mp4'')) \<and>
     samples (tone 440 DUR 0.03) t = 0.03 * sin (2 * pi * 440 * t) \<and>
     samples (tone 440 DUR 0.03) (3.6 + 0.05)
       \<noteq> samples (tone 440 DUR 0.03) (3.6 + 0.05) + samples (thump 0.2) 0.05"
proof -
  from choose_fighters_distinct[of "draws w"] obtain left right where
    "choose_fighters (draws w) = Inr (left, right)" by blast
  from compose_ok[OF this] obtain video where
    v: "compose w = Inr video" "audio video = Some (tone 440 DUR 0.03)" by blast
  have "build_video w =
          ([Called Makedirs, Called Compose, Printed ''Rendering video...'',
            Write_videofile video ''out/video.mp4'', Printed ''Saved: out/video.mp4''],
           Inr ''out/video.mp4'')" if "build_ok w"
    using build_video_ok[OF that] v(1) by simp
  moreover have "samples (tone 440 DUR 0.03) t = 0.03 * sin (2 * pi * 440 * t)"
    by (simp add: tone_def)
  ultimately show ?thesis using v thump_after_impact by auto
qed

text \<open>The run with no secret set, sampled at one second.\<close>

theorem composite_audio_is_base_tone_witness:
  "build_ok quiet_world \<and>
   (\<exists>video. compose quiet_world = Inr video \<and>
     audio video = Some (tone 440 DUR 0.03) \<and>
     build_video quiet_world =
       ([Called Makedirs, Called Compose, Printed ''Rendering video...'',
         Write_videofile video ''out/video.mp4'', Printed ''Saved: out/video.mp4''],
        Inr ''out/video.mp4'') \<and>
     samples (tone 440 DUR 0.03) 1 = 0.03 * sin (2 * pi * 440 * 1) \<and>
     samples (tone 440 DUR 0.03) (3.6 + 0.05)
       \<noteq> samples (tone 440 DUR 0.03) (3.6 + 0.05) + samples (thump 0.2) 0.05)"
proof -
  have b: "build_ok quiet_world" by (simp add: build_ok_def quiet_world_def)
  show ?thesis
    using composite_audio_is_base_tone[of quiet_world 1] b by blast
qed




text \<open>
  C9.  A secret that is set to the empty string counts as unset: the upload step does what it
  does with that variable removed, which is to print the skip notice and return without an
  external call.
\<close>

theorem empty_secret_is_unset:
  assumes "k \<in> {''YT_CLIENT_ID'', ''YT_CLIENT_SECRET'', ''YT_REFRESH_TOKEN''}"
      and "env w k = Some ''''"
  shows "maybe_upload_to_youtube w p = maybe_upload_to_youtube (w\<lparr>env := (env w)(k := None)\<rparr>) p \<and>
         maybe_upload_to_youtube w p =
           ([Printed ''YouTube secrets not set. Skipping upload.''], Inr ())"
proof -
  have "\<not> secrets_set w" using assms by (auto simp add: secrets_set_def truthy_def)
  moreover have "\<not> secrets_set (w\<lparr>env := (env w)(k := None)\<rparr>)"
    using assms(1) by (auto simp add: secrets_set_def truthy_def)
  ultimately show ?thesis
    by (simp add: skip_when_falsy)
qed

text \<open>The run with an empty client id.\<close>

theorem empty_secret_is_unset_witness:
  "''YT_CLIENT_ID'' \<in> {''YT_CLIENT_ID'', ''YT_CLIENT_SECRET'', ''YT_REFRESH_TOKEN''} \<and>
   env empty_id_world ''YT_CLIENT_ID'' = Some [] \<and>
   maybe_upload_to_youtube empty_id_world ''out/video.mp4'' =
     maybe_upload_to_youtube
       (empty_id_world\<lparr>env := (env empty_id_world)(''YT_CLIENT_ID'' := None)\<rparr>) ''out/video.mp4'' \<and>
   maybe_upload_to_youtube empty_id_world ''out/video.mp4'' =
     ([Printed ''YouTube secrets not set. Skipping upload.''], Inr ())"
proof -
  have k: "''YT_CLIENT_ID'' \<in> {''YT_CLIENT_ID'', ''YT_CLIENT_SECRET'', ''YT_REFRESH_TOKEN''}"
    by simp
  have e: "env empty_id_world ''YT_CLIENT_ID'' = Some []" by (simp add: empty_id_world_def)
  show ?thesis
    using empty_secret_is_unset[OF k e, of "''out/video.mp4''"] k e by blast
qed

text \<open>
  C3, as amended.  When no external call ends with an exception outside \<open>Exception\<close>, the
  upload step returns normally; if the secrets are set and a call of the upload step raises,
  the trace ends with the call that raised and the failure line carrying its message; and a
  run whose rendering succeeds ends normally, whatever the upload did.
\<close>

theorem upload_exception_is_caught:
  assumes "\<forall>c cls msg. raises w c \<noteq> Some (BaseExn cls msg)"
  shows "snd (maybe_upload_to_youtube w p) = Inr () \<and>
         (secrets_set w \<and> c \<in> set upload_calls \<and> raises w c \<noteq> None \<longrightarrow>
            (\<exists>tr c' cls msg.
               c' \<in> set upload_calls \<and> raises w c' = Some (Exn cls msg) \<and>
               maybe_upload_to_youtube w p =
                 (tr @ [Called c', Printed (''YouTube upload failed: '' @ msg)], Inr ()))) \<and>
         (build_ok w \<longrightarrow> snd (main w) = Inr ())"
proof (intro conjI impI)
  show r: "snd (maybe_upload_to_youtube w p) = Inr ()" for p
    using assms by (rule maybe_upload_returns)
  show "snd (main w) = Inr ()" if "build_ok w"
  proof -
    from build_video_ok[OF that] obtain tr where "build_video w = (tr, Inr ''out/video.mp4'')"
      by blast
    then show ?thesis using r[of "''out/video.mp4''"] by (simp add: main_def bind_io_simps)
  qed
  show "\<exists>tr c' cls msg.
               c' \<in> set upload_calls \<and> raises w c' = Some (Exn cls msg) \<and>
               maybe_upload_to_youtube w p =
                 (tr @ [Called c', Printed (''YouTube upload failed: '' @ msg)], Inr ())"
    if h: "secrets_set w \<and> c \<in> set upload_calls \<and> raises w c \<noteq> None"
  proof -
    from h upload_body_raised[of c w p] obtain tr c' e where
      u: "upload_body w p = (tr @ [Called c'], Inl e)" "c' \<in> set upload_calls"
         "raises w c' = Some e" by blast
    with assms obtain cls msg where e: "e = Exn cls msg" by (cases e) auto
    have "maybe_upload_to_youtube w p =
       ((tr @ [Called c']) @ [Printed (''YouTube upload failed: '' @ msg)], Inr ())"
      using h u(1) e by (intro maybe_upload_caught) simp_all
    with u e show ?thesis by auto
  qed
qed

text \<open>The run whose insert request ends with an HTTP error.\<close>

theorem upload_exception_is_caught_witness:
  "(\<forall>c cls msg. raises failing_world c \<noteq> Some (BaseExn cls msg)) \<and>
   snd (maybe_upload_to_youtube failing_world ''out/video.mp4'') = Inr () \<and>
   secrets_set failing_world \<and> InsertExecute \<in> set upload_calls \<and>
   raises failing_world InsertExecute \<noteq> None \<and>
   (\<exists>tr c' cls msg.
      c' \<in> set upload_calls \<and> raises failing_world c' = Some (Exn cls msg) \<and>
      maybe_upload_to_youtube failing_world ''out/video.mp4'' =
        (tr @ [Called c', Printed (''YouTube upload failed: '' @ msg)], Inr ())) \<and>
   build_ok failing_world \<and> snd (main failing_world) = Inr ()"
proof -
  have a: "\<forall>c cls msg. raises failing_world c \<noteq> Some (BaseExn cls msg)"
    by (simp add: failing_world_def)
  have s: "secrets_set failing_world" by (simp add: secrets_set_def failing_world_def truthy_def)
  have i: "InsertExecute \<in> set upload_calls" by (simp add: upload_calls_def)
  have r: "raises failing_world InsertExecute \<noteq> None" by (simp add: failing_world_def)
  have b: "build_ok failing_world" by (simp add: build_ok_def failing_world_def)
  show ?thesis
    using upload_exception_is_caught[OF a, of "''out/video.mp4''" InsertExecute] a s i r b
    by blast
qed

text \<open>
  C3 as stated fails for an exception that does not derive from \<open>Exception\<close>: a
  keyboard interrupt during the insert request passes the \<open>except Exception\<close> clause,
  leaves the upload step unlogged and ends the run.
\<close>

theorem keyboard_interrupt_escapes:
  "maybe_upload_to_youtube interrupted_world ''out/video.mp4'' =
     ([Called ImportGoogle, Called Credentials, Called Build, Called MediaFileUpload,
       Printed ''Uploading to YouTube...'', Called InsertExecute],
      Inl (BaseExn ''KeyboardInterrupt'' [])) \<and>
   build_ok interrupted_world \<and>
   snd (main interrupted_world) = Inl (BaseExn ''KeyboardInterrupt'' [])"
proof -
  have s: "secrets_set interrupted_world"
    by (simp add: secrets_set_def interrupted_world_def truthy_def)
  have u: "upload_body interrupted_world p =
     ([Called ImportGoogle, Called Credentials, Called Build, Called MediaFileUpload,
       Printed ''Uploading to YouTube...'', Called InsertExecute],
      Inl (BaseExn ''KeyboardInterrupt'' []))" for p
    by (simp add: upload_body_def ext_def print_def bind_io_simps interrupted_world_def)
  have m: "maybe_upload_to_youtube interrupted_world p =
     ([Called ImportGoogle, Called Credentials, Called Build, Called MediaFileUpload,
       Printed ''Uploading to YouTube...'', Called InsertExecute],
      Inl (BaseExn ''KeyboardInterrupt'' []))" for p
    using s u by (rule maybe_upload_escapes)
  have b: "build_ok interrupted_world" by (simp add: build_ok_def interrupted_world_def)
  from build_video_ok[OF b] obtain tr where
    "build_video interrupted_world = (tr, Inr ''out/video.mp4'')" by blast
  then have "snd (main interrupted_world) = Inl (BaseExn ''KeyboardInterrupt'' [])"
    by (simp add: main_def bind_io_simps m)
  with m b show ?thesis by blast
qed

end
